theory Spec2Isabelle
  imports Complex_Main "HOL-Library.Sublist"
begin

section \<open>The strategy worker of \<^verbatim>\<open>frontera/worker/strategy.py\<close>\<close>

text \<open>
  The worker talks to collaborators that live outside the module: the states backend,
  the strategy plug-in, the message-bus consumer and producer, the codec, the frontier
  manager, the logger and the Twisted reactor. Every call the worker makes on one of
  them is written, in program order, to a trace kept in the worker's state; the claims
  about who is called, with what and in which order are statements about that trace.

  Conventions of the embedding:
  \<^item> a \<^verbatim>\<open>Request\<close> (a \<^verbatim>\<open>Response\<close> carries the meta of its request) is a record
    of the fields the worker reads: \<^verbatim>\<open>url\<close> and the two meta keys
    \<^verbatim>\<open>b'fingerprint'\<close> and \<^verbatim>\<open>b'jid'\<close>, each of which may be absent from the dict;
  \<^item> an argument that the source passes either as one request or as a list
    (\<^verbatim>\<open>to_fetch\<close>, \<^verbatim>\<open>set_states\<close>, \<^verbatim>\<open>update_cache\<close>) keeps that shape;
  \<^item> a procedure that may raise returns \<open>(exn option, state)\<close>: \<open>None\<close> is a
    normal return, and the state is the one reached when the exception left;
  \<^item> calls on the backend, the producer, the consumer, the manager and the logger
    return normally; the decoder and the strategy may raise; every exception of
    the model is an instance of Python's \<^verbatim>\<open>Exception\<close>.
\<close>

subsection \<open>Data\<close>

datatype exn = KeyError | TypeError | AssertionError | RuntimeError | OtherError string

record request =
  url :: string
  fingerprint :: "string option"
  jid :: "int option"

datatype reqs = One request | Many "request list"

fun requests_of :: "reqs \<Rightarrow> request list" where
  "requests_of (One r) = [r]"
| "requests_of (Many rs) = rs"

text \<open>The decoder's output: a tagged tuple.\<close>

datatype msg =
    AddSeeds "request list"
  | PageCrawled request
  | LinksExtracted request "request list"
  | RequestError request string
  | Offset nat nat
  | Unknown string

text \<open>
  The encoder is outside the module; \<open>UpdateScore r s b\<close> stands for whatever
  \<^verbatim>\<open>encode_update_score(request=r, score=s, schedule=b)\<close> returns.
\<close>

datatype encoded = UpdateScore request real bool

datatype level = DEBUG | INFO | ERROR

datatype logarg = Str string | Num int | Message msg

datatype task = WorkTask | FlushStatesTask | LoggingTask

text \<open>What \<^verbatim>\<open>reactor.callLater\<close> and \<^verbatim>\<open>reactor.callFromThread\<close> hold.\<close>

datatype callback = CallShutdown | DeferredCallback

datatype action =
    Log level string "logarg list"
  | LogException exn
  | GetMessages nat
  | StatesFetch "string set"
  | SetStates reqs
  | UpdateCache reqs
  | StatesFlush
  | StrategyAddSeeds "request list"
  | StrategyPageCrawled request
  | StrategyLinksExtracted request "request list"
  | StrategyPageError request string
  | StrategyClose
  | ManagerStop
  | ProducerSend "string option" encoded
  | ProducerClose
  | ConsumerClose
  | TaskStop task
  | ReactorStop

text \<open>
  The strategy receives \<^verbatim>\<open>update_score\<close> and \<^verbatim>\<open>states_context\<close> from
  \<^verbatim>\<open>from_worker\<close>, so a handler may call back into the worker. A handler is a
  function of the plug-in's own state that answers with the calls it makes, in order,
  whether it raises at its end, and its next state. A call that raises ends the handler
  with that exception. Omitted arguments of \<^verbatim>\<open>send\<close> are \<open>None\<close>.
\<close>

datatype call =
    Send request "real option" "bool option"
  | ToFetch reqs
  | Fetch
  | RefreshAndKeep reqs

datatype 's outcome = Outcome (calls: "call list") (raised: "exn option") (next_state: 's)

record 's strategy =
  add_seeds :: "'s \<Rightarrow> request list \<Rightarrow> 's outcome"
  page_crawled :: "'s \<Rightarrow> request \<Rightarrow> 's outcome"
  links_extracted :: "'s \<Rightarrow> request \<Rightarrow> request list \<Rightarrow> 's outcome"
  page_error :: "'s \<Rightarrow> request \<Rightarrow> string \<Rightarrow> 's outcome"
  finished :: "'s \<Rightarrow> bool"

text \<open>
  The worker: \<^verbatim>\<open>job_id\<close>, the batch size, the counters of \<^verbatim>\<open>stats\<close>
  (\<^verbatim>\<open>last_consumed\<close> is absent until the first tick; the timestamp
  \<^verbatim>\<open>last_consumption_run\<close> is left out), the two fields of the \<^verbatim>\<open>StatesContext\<close>,
  the \<^verbatim>\<open>running\<close> flags of the three \<^verbatim>\<open>LoopingCall\<close>s, the reactor's flag and
  its queue of pending calls, the plug-in's state and the trace.
\<close>

record 's worker =
  job_id :: int
  consumer_batch_size :: nat
  consumed_since_start :: int
  consumed_add_seeds :: int
  consumed_page_crawled :: int
  consumed_links_extracted :: int
  consumed_request_error :: int
  last_consumed :: "int option"
  sc_requests :: "request list"
  sc_fingerprints :: "string set"
  task_running :: bool
  flush_states_task_running :: bool
  logging_task_running :: bool
  reactor_running :: bool
  delayed :: "callback list"
  strategy_state :: 's
  trace :: "action list"

definition emit :: "action list \<Rightarrow> 's worker \<Rightarrow> 's worker" where
  "emit as w = w\<lparr>trace := trace w @ as\<rparr>"

definition and_then ::
  "exn option \<times> 's worker \<Rightarrow> ('s worker \<Rightarrow> exn option \<times> 's worker) \<Rightarrow> exn option \<times> 's worker" where
  "and_then r f = (case r of (None, w) \<Rightarrow> f w | (Some e, w) \<Rightarrow> (Some e, w))"

subsection \<open>UpdateScoreStream\<close>

definition send :: "request \<Rightarrow> real option \<Rightarrow> bool option \<Rightarrow> 's worker \<Rightarrow> 's worker" where
  "send request score dont_queue w =
     (let s = (case score of None \<Rightarrow> 1 | Some x \<Rightarrow> x);
          dq = (case dont_queue of None \<Rightarrow> False | Some b \<Rightarrow> b);
          encoded = UpdateScore request s (\<not> dq)
      in emit [ProducerSend None encoded] w)"

definition update_score_flush :: "'s worker \<Rightarrow> 's worker" where
  "update_score_flush w = w"

subsection \<open>StatesContext\<close>

text \<open>
  \<^verbatim>\<open>[x.meta[b'fingerprint'] for x in requests]\<close>: the list is built before the set is
  touched, and a request without the key raises \<^verbatim>\<open>KeyError\<close>.
\<close>

fun fingerprints_of :: "request list \<Rightarrow> string list option" where
  "fingerprints_of [] = Some []"
| "fingerprints_of (x # xs) =
     (case fingerprint x of
        None \<Rightarrow> None
      | Some f \<Rightarrow> (case fingerprints_of xs of None \<Rightarrow> None | Some fs \<Rightarrow> Some (f # fs)))"

definition to_fetch :: "reqs \<Rightarrow> 's worker \<Rightarrow> exn option \<times> 's worker" where
  "to_fetch requests w =
     (case requests of
        Many rs \<Rightarrow>
          (case fingerprints_of rs of
             None \<Rightarrow> (Some KeyError, w)
           | Some fs \<Rightarrow> (None, w\<lparr>sc_fingerprints := sc_fingerprints w \<union> set fs\<rparr>))
      | One r \<Rightarrow>
          (case fingerprint r of
             None \<Rightarrow> (Some KeyError, w)
           | Some f \<Rightarrow> (None, w\<lparr>sc_fingerprints := insert f (sc_fingerprints w)\<rparr>)))"

definition fetch :: "'s worker \<Rightarrow> 's worker" where
  "fetch w = (emit [StatesFetch (sc_fingerprints w)] w)\<lparr>sc_fingerprints := {}\<rparr>"

text \<open>\<^verbatim>\<open>self._requests.extend(requests)\<close> raises \<^verbatim>\<open>TypeError\<close> on a single request.\<close>

definition refresh_and_keep :: "reqs \<Rightarrow> 's worker \<Rightarrow> exn option \<times> 's worker" where
  "refresh_and_keep requests w =
     and_then (to_fetch requests w) (\<lambda>w1.
       let w2 = fetch w1;
           w3 = emit [SetStates requests] w2
       in (case requests of
             Many rs \<Rightarrow> (None, w3\<lparr>sc_requests := sc_requests w3 @ rs\<rparr>)
           | One r \<Rightarrow> (Some TypeError, w3)))"

definition release :: "'s worker \<Rightarrow> 's worker" where
  "release w = (emit [UpdateCache (Many (sc_requests w))] w)\<lparr>sc_requests := []\<rparr>"

definition states_context_flush :: "'s worker \<Rightarrow> 's worker" where
  "states_context_flush w =
     emit [Log INFO ''Flushing states'' [], StatesFlush,
           Log INFO ''Flushing of states finished'' []] w"

subsection \<open>The strategy's calls\<close>

fun run_call :: "call \<Rightarrow> 's worker \<Rightarrow> exn option \<times> 's worker" where
  "run_call (Send r s dq) w = (None, send r s dq w)"
| "run_call (ToFetch rq) w = to_fetch rq w"
| "run_call Fetch w = (None, fetch w)"
| "run_call (RefreshAndKeep rq) w = refresh_and_keep rq w"

fun run_calls :: "call list \<Rightarrow> 's worker \<Rightarrow> exn option \<times> 's worker" where
  "run_calls [] w = (None, w)"
| "run_calls (c # cs) w = and_then (run_call c w) (run_calls cs)"

definition invoke :: "action \<Rightarrow> 's outcome \<Rightarrow> 's worker \<Rightarrow> exn option \<times> 's worker" where
  "invoke a out w =
     (case run_calls (calls out) (emit [a] w) of
        (Some e, w') \<Rightarrow> (Some e, w'\<lparr>strategy_state := next_state out\<rparr>)
      | (None, w') \<Rightarrow> (raised out, w'\<lparr>strategy_state := next_state out\<rparr>))"

subsection \<open>Collecting a batch\<close>

text \<open>\<^verbatim>\<open>binascii.hexlify\<close>: two lower-case hexadecimal digits for each byte.\<close>

definition hex_digit :: "nat \<Rightarrow> char" where
  "hex_digit n = ''0123456789abcdef'' ! n"

definition hexlify :: "string \<Rightarrow> string" where
  "hexlify m = concat (map (\<lambda>c. [hex_digit (of_char c div 16), hex_digit (of_char c mod 16)]) m)"

type_synonym decoder = "string \<Rightarrow> exn + msg"

definition collect_unknown_message :: "msg \<Rightarrow> 's worker \<Rightarrow> 's worker" where
  "collect_unknown_message msg w = emit [Log DEBUG ''Unknown message %s'' [Message msg]] w"

definition on_unknown_message :: "msg \<Rightarrow> 's worker \<Rightarrow> 's worker" where
  "on_unknown_message msg w = w"

text \<open>The inner \<^verbatim>\<open>try\<close> block of \<^verbatim>\<open>collect_batch\<close>, entered after the message was appended.\<close>

definition classify :: "msg \<Rightarrow> 's worker \<Rightarrow> exn option \<times> 's worker" where
  "classify msg w =
     (case msg of
        AddSeeds seeds \<Rightarrow> to_fetch (Many seeds) w
      | PageCrawled response \<Rightarrow> to_fetch (One response) w
      | LinksExtracted request links \<Rightarrow>
          and_then (to_fetch (One request) w) (to_fetch (Many links))
      | RequestError request error \<Rightarrow> to_fetch (One request) w
      | Offset p off \<Rightarrow> (None, w)
      | Unknown t \<Rightarrow> (None, collect_unknown_message msg w))"

text \<open>
  The loop of \<^verbatim>\<open>collect_batch\<close> over the messages the consumer yields. Only
  \<^verbatim>\<open>KeyError\<close> and \<^verbatim>\<open>TypeError\<close> of the decoder are handled; any other exception
  leaves the loop and the function.
\<close>

fun collect_loop ::
  "decoder \<Rightarrow> string list \<Rightarrow> msg list \<Rightarrow> int \<Rightarrow> 's worker \<Rightarrow> (exn + msg list \<times> int) \<times> 's worker" where
  "collect_loop decode [] batch consumed w = (Inr (batch, consumed), w)"
| "collect_loop decode (m # ms) batch consumed w =
     (case decode m of
        Inl e \<Rightarrow>
          if e = KeyError \<or> e = TypeError
          then collect_loop decode ms batch (consumed + 1)
                 (emit [Log ERROR ''Decoding error:'' [], LogException e,
                        Log DEBUG ''Message %s'' [Str (hexlify m)]] w)
          else (Inl e, w)
      | Inr msg \<Rightarrow>
          (case classify msg w of
             (Some exc, w') \<Rightarrow>
               collect_loop decode ms (batch @ [msg]) (consumed + 1) (emit [LogException exc] w')
           | (None, w') \<Rightarrow> collect_loop decode ms (batch @ [msg]) (consumed + 1) w'))"

definition collect_batch ::
  "decoder \<Rightarrow> string list \<Rightarrow> 's worker \<Rightarrow> (exn + msg list \<times> int) \<times> 's worker" where
  "collect_batch decode ms w =
     collect_loop decode ms [] 0 (emit [GetMessages (consumer_batch_size w)] w)"

subsection \<open>Dispatching to the strategy\<close>

definition on_add_seeds :: "'s strategy \<Rightarrow> request list \<Rightarrow> 's worker \<Rightarrow> exn option \<times> 's worker" where
  "on_add_seeds S seeds w =
     (let w1 = emit (Log DEBUG ''Adding %i seeds'' [Num (int (length seeds))] #
                     map (\<lambda>seed. Log DEBUG ''URL: %s'' [Str (url seed)]) seeds) w;
          w2 = emit [SetStates (Many seeds)] w1
      in and_then (invoke (StrategyAddSeeds seeds) (add_seeds S (strategy_state w2) seeds) w2)
           (\<lambda>w3. (None, emit [UpdateCache (Many seeds)] w3)))"

definition on_page_crawled :: "'s strategy \<Rightarrow> request \<Rightarrow> 's worker \<Rightarrow> exn option \<times> 's worker" where
  "on_page_crawled S response w =
     (let w1 = emit [Log DEBUG ''Page crawled %s'' [Str (url response)]] w;
          w2 = emit [SetStates (Many [response])] w1
      in and_then
           (invoke (StrategyPageCrawled response) (page_crawled S (strategy_state w2) response) w2)
           (\<lambda>w3. (None, emit [UpdateCache (One response)] w3)))"

definition on_links_extracted ::
  "'s strategy \<Rightarrow> request \<Rightarrow> request list \<Rightarrow> 's worker \<Rightarrow> exn option \<times> 's worker" where
  "on_links_extracted S request links w =
     (let w1 = emit (Log DEBUG ''Links extracted %s (%d)''
                       [Str (url request), Num (int (length links))] #
                     map (\<lambda>link. Log DEBUG ''URL: %s'' [Str (url link)]) links) w;
          w2 = emit [SetStates (Many links)] w1
      in and_then
           (invoke (StrategyLinksExtracted request links)
              (links_extracted S (strategy_state w2) request links) w2)
           (\<lambda>w3. (None, emit [UpdateCache (Many links)] w3)))"

definition on_request_error ::
  "'s strategy \<Rightarrow> request \<Rightarrow> string \<Rightarrow> 's worker \<Rightarrow> exn option \<times> 's worker" where
  "on_request_error S request error w =
     (let w1 = emit [Log DEBUG ''Page error %s (%s)'' [Str (url request), Str error]] w;
          w2 = emit [SetStates (One request)] w1
      in and_then
           (invoke (StrategyPageError request error)
              (page_error S (strategy_state w2) request error) w2)
           (\<lambda>w3. (None, emit [UpdateCache (One request)] w3)))"

text \<open>The \<^verbatim>\<open>try\<close> block of the loop of \<^verbatim>\<open>process_batch\<close>, for one message.\<close>

definition dispatch :: "'s strategy \<Rightarrow> msg \<Rightarrow> 's worker \<Rightarrow> exn option \<times> 's worker" where
  "dispatch S msg w =
     (case msg of
        AddSeeds seeds \<Rightarrow>
          (let seeds' = map (\<lambda>seed. seed\<lparr>jid := Some (job_id w)\<rparr>) seeds
           in and_then (on_add_seeds S seeds' w)
                (\<lambda>w'. (None, w'\<lparr>consumed_add_seeds := consumed_add_seeds w' + 1\<rparr>)))
      | PageCrawled response \<Rightarrow>
          if jid response = None \<or> jid response \<noteq> Some (job_id w) then (None, w)
          else and_then (on_page_crawled S response w)
                 (\<lambda>w'. (None, w'\<lparr>consumed_page_crawled := consumed_page_crawled w' + 1\<rparr>))
      | LinksExtracted request links \<Rightarrow>
          if jid request = None \<or> jid request \<noteq> Some (job_id w) then (None, w)
          else and_then (on_links_extracted S request links w)
                 (\<lambda>w'. (None, w'\<lparr>consumed_links_extracted := consumed_links_extracted w' + 1\<rparr>))
      | RequestError request error \<Rightarrow>
          if jid request = None \<or> jid request \<noteq> Some (job_id w) then (None, w)
          else and_then (on_request_error S request error w)
                 (\<lambda>w'. (None, w'\<lparr>consumed_request_error := consumed_request_error w' + 1\<rparr>))
      | Offset p off \<Rightarrow> (None, on_unknown_message msg w)
      | Unknown t \<Rightarrow> (None, on_unknown_message msg w))"

text \<open>One turn of the loop: the \<^verbatim>\<open>try\<close> block and its \<^verbatim>\<open>except Exception\<close>.\<close>

definition process_msg :: "'s strategy \<Rightarrow> msg \<Rightarrow> 's worker \<Rightarrow> 's worker" where
  "process_msg S msg w =
     (case dispatch S msg w of
        (Some exc, w') \<Rightarrow> emit [LogException exc] w'
      | (None, w') \<Rightarrow> w')"

fun process_batch :: "'s strategy \<Rightarrow> msg list \<Rightarrow> 's worker \<Rightarrow> 's worker" where
  "process_batch S [] w = w"
| "process_batch S (msg # batch) w = process_batch S batch (process_msg S msg w)"

subsection \<open>Periodic tasks and shutdown\<close>

fun running :: "task \<Rightarrow> 's worker \<Rightarrow> bool" where
  "running WorkTask w = task_running w"
| "running FlushStatesTask w = flush_states_task_running w"
| "running LoggingTask w = logging_task_running w"

fun set_running :: "task \<Rightarrow> bool \<Rightarrow> 's worker \<Rightarrow> 's worker" where
  "set_running WorkTask b w = w\<lparr>task_running := b\<rparr>"
| "set_running FlushStatesTask b w = w\<lparr>flush_states_task_running := b\<rparr>"
| "set_running LoggingTask b w = w\<lparr>logging_task_running := b\<rparr>"

text \<open>
  Twisted's \<^verbatim>\<open>LoopingCall.stop\<close> asserts that the call is running, and
  \<^verbatim>\<open>LoopingCall.start\<close> that it is not; \<^verbatim>\<open>reactor.stop\<close> raises a
  \<^verbatim>\<open>RuntimeError\<close> when the reactor is not running.
\<close>

definition looping_call_stop :: "task \<Rightarrow> 's worker \<Rightarrow> exn option \<times> 's worker" where
  "looping_call_stop t w =
     (let w1 = emit [TaskStop t] w
      in if running t w1 then (None, set_running t False w1) else (Some AssertionError, w1))"

definition reactor_stop :: "'s worker \<Rightarrow> exn option \<times> 's worker" where
  "reactor_stop w =
     (let w1 = emit [ReactorStop] w
      in if reactor_running w1 then (None, w1\<lparr>reactor_running := False\<rparr>)
         else (Some RuntimeError, w1))"

definition call_later :: "callback \<Rightarrow> 's worker \<Rightarrow> 's worker" where
  "call_later cb w = w\<lparr>delayed := delayed w @ [cb]\<rparr>"

text \<open>
  \<^verbatim>\<open>stop_tasks\<close> returns a fresh \<^verbatim>\<open>Deferred\<close> whose callbacks are
  \<^verbatim>\<open>_perform_shutdown\<close>, then \<^verbatim>\<open>_stop_reactor\<close>; firing it is \<open>deferred_callback\<close>.
\<close>

definition stop_tasks :: "'s worker \<Rightarrow> exn option \<times> 's worker" where
  "stop_tasks w =
     (let w0 = emit [Log INFO ''Stopping periodic tasks.'' []] w in
      and_then (if task_running w0 then looping_call_stop WorkTask w0 else (None, w0)) (\<lambda>w1.
      and_then (if flush_states_task_running w1 then looping_call_stop FlushStatesTask w1
                else (None, w1)) (\<lambda>w2.
      if logging_task_running w2 then looping_call_stop LoggingTask w2 else (None, w2))))"

definition stop_reactor :: "'s worker \<Rightarrow> exn option \<times> 's worker" where
  "stop_reactor w =
     (case reactor_stop (emit [Log INFO ''Stopping reactor.'' []] w) of
        (Some e, w') \<Rightarrow> if e = RuntimeError then (None, w') else (Some e, w')
      | (None, w') \<Rightarrow> (None, w'))"

definition flush_states :: "'s worker \<Rightarrow> 's worker" where
  "flush_states w = states_context_flush w"

definition perform_shutdown :: "'s worker \<Rightarrow> 's worker" where
  "perform_shutdown w =
     (let w1 = flush_states w;
          w2 = emit [Log INFO ''Closing crawling strategy.'' [], StrategyClose] w1;
          w3 = emit [Log INFO ''Stopping frontier manager.'' [], ManagerStop] w2
      in emit [Log INFO ''Closing message bus.'' [], ProducerClose, ConsumerClose] w3)"

definition deferred_callback :: "'s worker \<Rightarrow> exn option \<times> 's worker" where
  "deferred_callback w = stop_reactor (perform_shutdown w)"

definition call_shutdown :: "'s worker \<Rightarrow> exn option \<times> 's worker" where
  "call_shutdown w = and_then (stop_tasks w) (\<lambda>w'. (None, call_later DeferredCallback w'))"

definition handle_shutdown :: "int \<Rightarrow> 's worker \<Rightarrow> 's worker" where
  "handle_shutdown signum w =
     call_later CallShutdown
       (emit [Log INFO ''Received shutdown signal %d, shutting down gracefully.'' [Num signum]] w)"

subsection \<open>One tick of the work task\<close>

text \<open>The block of \<^verbatim>\<open>work\<close> under \<^verbatim>\<open>if self.strategy.finished():\<close>.\<close>

definition exit_if_finished :: "'s strategy \<Rightarrow> 's worker \<Rightarrow> exn option \<times> 's worker" where
  "exit_if_finished S w =
     (if finished S (strategy_state w)
      then and_then
             (stop_tasks
                (emit [Log INFO ''Successfully reached the crawling goal.'' [],
                       Log INFO ''Finishing.'' []] w))
             (\<lambda>w'. (None, call_later DeferredCallback w'))
      else (None, w))"

definition work ::
  "'s strategy \<Rightarrow> decoder \<Rightarrow> string list \<Rightarrow> 's worker \<Rightarrow> exn option \<times> 's worker" where
  "work S decode ms w =
     (case collect_batch decode ms w of
        (Inl e, w1) \<Rightarrow> (Some e, w1)
      | (Inr (batch, consumed), w1) \<Rightarrow>
          (let w2 = fetch w1;
               w3 = process_batch S batch w2;
               w4 = update_score_flush w3;
               w5 = release w4
           in and_then (exit_if_finished S w5)
                (\<lambda>w6. (None, w6\<lparr>last_consumed := Some consumed,
                                  consumed_since_start := consumed_since_start w6 + consumed\<rparr>))))"

definition log_status :: "'s worker \<Rightarrow> 's worker" where
  "log_status w =
     emit (map (\<lambda>(k, v). Log INFO ''%s=%s'' [Str k, Num v])
             ([(''consumed_since_start'', consumed_since_start w),
               (''consumed_add_seeds'', consumed_add_seeds w),
               (''consumed_page_crawled'', consumed_page_crawled w),
               (''consumed_links_extracted'', consumed_links_extracted w),
               (''consumed_request_error'', consumed_request_error w)] @
              (case last_consumed w of None \<Rightarrow> [] | Some c \<Rightarrow> [(''last_consumed'', c)]))) w"

subsection \<open>The reactor\<close>

text \<open>
  What the reactor may run next: a firing of one of the three periodic tasks (the work
  task's with the messages the consumer then yields), the shutdown signal, or the
  oldest pending call. A \<^verbatim>\<open>LoopingCall\<close> that was stopped has no pending timer, so
  a firing runs the task's function only while the task is running. When \<^verbatim>\<open>work\<close>
  raises, \<^verbatim>\<open>errback_main\<close> logs the failure and starts the task again. An
  exception that leaves a pending call is the reactor's to log.
\<close>

datatype event =
    WorkTimer "string list"
  | FlushStatesTimer
  | LoggingTimer
  | ShutdownSignal int
  | RunDelayed

definition errback_main :: "exn \<Rightarrow> 's worker \<Rightarrow> 's worker" where
  "errback_main e w = (emit [LogException e] w)\<lparr>task_running := True\<rparr>"

fun run_callback :: "callback \<Rightarrow> 's worker \<Rightarrow> 's worker" where
  "run_callback CallShutdown w = snd (call_shutdown w)"
| "run_callback DeferredCallback w = snd (deferred_callback w)"

definition step :: "'s strategy \<Rightarrow> decoder \<Rightarrow> event \<Rightarrow> 's worker \<Rightarrow> 's worker" where
  "step S decode ev w =
     (case ev of
        WorkTimer ms \<Rightarrow>
          if task_running w
          then (case work S decode ms w of
                  (None, w') \<Rightarrow> w'
                | (Some e, w') \<Rightarrow> errback_main e w')
          else w
      | FlushStatesTimer \<Rightarrow> if flush_states_task_running w then flush_states w else w
      | LoggingTimer \<Rightarrow> if logging_task_running w then log_status w else w
      | ShutdownSignal signum \<Rightarrow> handle_shutdown signum w
      | RunDelayed \<Rightarrow>
          (case delayed w of
             [] \<Rightarrow> w
           | cb # q \<Rightarrow> run_callback cb (w\<lparr>delayed := q\<rparr>)))"

fun run_events :: "'s strategy \<Rightarrow> decoder \<Rightarrow> event list \<Rightarrow> 's worker \<Rightarrow> 's worker" where
  "run_events S decode [] w = w"
| "run_events S decode (ev # evs) w = run_events S decode evs (step S decode ev w)"

subsection \<open>The worker as \<^verbatim>\<open>__init__\<close> leaves it\<close>

definition init :: "nat \<Rightarrow> 's \<Rightarrow> 's worker" where
  "init batch_size st =
     \<lparr>job_id = 0, consumer_batch_size = batch_size, consumed_since_start = 0,
      consumed_add_seeds = 0, consumed_page_crawled = 0, consumed_links_extracted = 0,
      consumed_request_error = 0, last_consumed = None, sc_requests = [],
      sc_fingerprints = {}, task_running = False, flush_states_task_running = False,
      logging_task_running = False, reactor_running = False, delayed = [],
      strategy_state = st, trace = []\<rparr>"

section \<open>Observations on a run\<close>

text \<open>The calls made between two states of one run.\<close>

definition new_actions :: "'s worker \<Rightarrow> 's worker \<Rightarrow> action list" where
  "new_actions w w' = drop (length (trace w)) (trace w')"

text \<open>
  What the code between collecting a batch and the end of its dispatch never writes;
  the trace only grows.
\<close>

definition same_frame :: "'s worker \<Rightarrow> 's worker \<Rightarrow> bool" where
  "same_frame w w' =
     (job_id w' = job_id w \<and> consumer_batch_size w' = consumer_batch_size w \<and>
      consumed_since_start w' = consumed_since_start w \<and> last_consumed w' = last_consumed w \<and>
      task_running w' = task_running w \<and>
      flush_states_task_running w' = flush_states_task_running w \<and>
      logging_task_running w' = logging_task_running w \<and>
      reactor_running w' = reactor_running w \<and> delayed w' = delayed w \<and>
      prefix (trace w) (trace w'))"

text \<open>A handler that enrolls fingerprints with a bare \<^verbatim>\<open>to_fetch\<close> leaves them pending.\<close>

fun not_to_fetch :: "call \<Rightarrow> bool" where
  "not_to_fetch (ToFetch rq) = False"
| "not_to_fetch c = True"

definition never_calls_to_fetch :: "'s strategy \<Rightarrow> bool" where
  "never_calls_to_fetch S =
     ((\<forall>st seeds. list_all not_to_fetch (calls (add_seeds S st seeds))) \<and>
      (\<forall>st r. list_all not_to_fetch (calls (page_crawled S st r))) \<and>
      (\<forall>st r ls. list_all not_to_fetch (calls (links_extracted S st r ls))) \<and>
      (\<forall>st r e. list_all not_to_fetch (calls (page_error S st r e))))"

text \<open>The \<^verbatim>\<open>stop\<close> calls of \<^verbatim>\<open>stop_tasks\<close>, in its order, for the tasks that run.\<close>

definition task_stops :: "'s worker \<Rightarrow> action list" where
  "task_stops w =
     (if task_running w then [TaskStop WorkTask] else []) @
     (if flush_states_task_running w then [TaskStop FlushStatesTask] else []) @
     (if logging_task_running w then [TaskStop LoggingTask] else [])"

text \<open>The calls on the strategy's four handlers, and the one a message of the batch leads to.\<close>

fun handler_call :: "action \<Rightarrow> bool" where
  "handler_call (StrategyAddSeeds seeds) = True"
| "handler_call (StrategyPageCrawled response) = True"
| "handler_call (StrategyLinksExtracted request links) = True"
| "handler_call (StrategyPageError request error) = True"
| "handler_call a = False"

fun expected_call :: "int \<Rightarrow> msg \<Rightarrow> action list" where
  "expected_call j (AddSeeds seeds) = [StrategyAddSeeds (map (\<lambda>seed. seed\<lparr>jid := Some j\<rparr>) seeds)]"
| "expected_call j (PageCrawled response) =
     (if jid response = Some j then [StrategyPageCrawled response] else [])"
| "expected_call j (LinksExtracted request links) =
     (if jid request = Some j then [StrategyLinksExtracted request links] else [])"
| "expected_call j (RequestError request error) =
     (if jid request = Some j then [StrategyPageError request error] else [])"
| "expected_call j (Offset p off) = []"
| "expected_call j (Unknown t) = []"

definition handler_calls :: "'s worker \<Rightarrow> 's worker \<Rightarrow> action list" where
  "handler_calls w w' = filter handler_call (new_actions w w')"

text \<open>The request whose \<^verbatim>\<open>jid\<close> \<^verbatim>\<open>process_batch\<close> checks, and the requests a message refers to.\<close>

fun carrier :: "msg \<Rightarrow> request option" where
  "carrier (PageCrawled response) = Some response"
| "carrier (LinksExtracted request links) = Some request"
| "carrier (RequestError request error) = Some request"
| "carrier (AddSeeds seeds) = None"
| "carrier (Offset p off) = None"
| "carrier (Unknown t) = None"

definition jid_differs :: "int \<Rightarrow> msg \<Rightarrow> bool" where
  "jid_differs j m =
     (case carrier m of
        Some r \<Rightarrow> (case jid r of Some k \<Rightarrow> k \<noteq> j | None \<Rightarrow> False)
      | None \<Rightarrow> False)"

definition jid_missing :: "msg \<Rightarrow> bool" where
  "jid_missing m = (case carrier m of Some r \<Rightarrow> jid r = None | None \<Rightarrow> False)"

fun referenced :: "msg \<Rightarrow> request list" where
  "referenced (AddSeeds seeds) = seeds"
| "referenced (PageCrawled response) = [response]"
| "referenced (LinksExtracted request links) = request # links"
| "referenced (RequestError request error) = [request]"
| "referenced (Offset p off) = []"
| "referenced (Unknown t) = []"



text \<open>The backend's \<^verbatim>\<open>fetch\<close> calls; the write-backs (\<^verbatim>\<open>update_cache\<close>) that cover a request, and the requests a handler's wrapper writes back.\<close>

fun fetch_call :: "action \<Rightarrow> bool" where
  "fetch_call (StatesFetch F) = True"
| "fetch_call a = False"

fun covers :: "action \<Rightarrow> request \<Rightarrow> bool" where
  "covers (UpdateCache rq) r = (r \<in> set (requests_of rq))"
| "covers a r = False"

fun covered :: "request \<Rightarrow> action list \<Rightarrow> bool" where
  "covered r [] = False"
| "covered r (a # as) = (covers a r \<or> covered r as)"


text \<open>Calls other than logging, polls of the consumer, and the worker without the record of its calls.\<close>

fun log_call :: "action \<Rightarrow> bool" where
  "log_call (Log l s as) = True"
| "log_call (LogException e) = True"
| "log_call a = False"

fun poll_call :: "action \<Rightarrow> bool" where
  "poll_call (GetMessages n) = True"
| "poll_call a = False"



definition untraced :: "'s worker \<Rightarrow> 's worker" where
  "untraced w = w\<lparr>trace := []\<rparr>"

subsection \<open>Inputs of the closed instances\<close>

definition req_a :: request where
  "req_a = \<lparr>url = ''/a'', fingerprint = Some ''aa'', jid = Some 0\<rparr>"

definition req_b :: request where
  "req_b = \<lparr>url = ''/b'', fingerprint = Some ''bb'', jid = None\<rparr>"

definition req_c :: request where
  "req_c = \<lparr>url = ''/c'', fingerprint = Some ''cc'', jid = Some 0\<rparr>"

definition req_nofp :: request where
  "req_nofp = \<lparr>url = ''/d'', fingerprint = None, jid = Some 0\<rparr>"

definition req_old :: request where
  "req_old = \<lparr>url = ''/e'', fingerprint = Some ''ee'', jid = Some 6\<rparr>"

definition decode_ex :: decoder where
  "decode_ex m =
     (if m = ''seeds'' then Inr (AddSeeds [req_a, req_b])
      else if m = ''page'' then Inr (PageCrawled req_a)
      else if m = ''links'' then Inr (LinksExtracted req_a [req_c])
      else if m = ''links2'' then Inr (LinksExtracted req_a [req_c, req_nofp])
      else if m = ''error'' then Inr (RequestError req_a ''timeout'')
      else if m = ''old'' then Inr (PageCrawled req_old)
      else if m = ''nojid'' then Inr (PageCrawled req_b)
      else if m = ''offset'' then Inr (Offset 0 42)
      else if m = ''key'' then Inl KeyError
      else if m = ''type'' then Inl TypeError
      else Inl (OtherError ''ValueError''))"

definition plain_strategy :: "nat strategy" where
  "plain_strategy =
     \<lparr>add_seeds = (\<lambda>st seeds. Outcome [] None (st + 1)),
      page_crawled = (\<lambda>st r. Outcome [Send r (Some 0.5) (Some True)] None (st + 1)),
      links_extracted = (\<lambda>st r ls. Outcome [RefreshAndKeep (Many ls)] None (st + 1)),
      page_error = (\<lambda>st r e. Outcome [] (Some (OtherError e)) (st + 1)),
      finished = (\<lambda>st. 3 \<le> st)\<rparr>"

text \<open>A strategy whose \<^verbatim>\<open>page_crawled\<close> enrolls the response and does not fetch.\<close>

definition enrolling_strategy :: "nat strategy" where
  "enrolling_strategy =
     plain_strategy\<lparr>page_crawled := (\<lambda>st r. Outcome [ToFetch (One r)] None st)\<rparr>"

text \<open>The worker with its three tasks and the reactor running.\<close>

definition started :: "nat worker" where
  "started =
     (init 10 0)\<lparr>task_running := True, flush_states_task_running := True,
                 logging_task_running := True, reactor_running := True\<rparr>"

section \<open>Properties\<close>

subsection \<open>Framing\<close>

lemma same_frame_refl [simp]: "same_frame w w"
  by (simp add: same_frame_def)

lemma same_frame_trans: "same_frame w w1 \<Longrightarrow> same_frame w1 w2 \<Longrightarrow> same_frame w w2"
  unfolding same_frame_def by (metis prefix_order.trans)

lemma same_frame_emit [simp]: "same_frame w (emit as w)"
  by (simp add: same_frame_def emit_def)

lemma same_frame_emit': "same_frame w w' \<Longrightarrow> same_frame w (emit as w')"
  by (auto simp add: same_frame_def emit_def prefix_def)

lemma same_frame_send: "same_frame w (send r s dq w)"
  by (simp add: send_def Let_def)

lemma same_frame_to_fetch: "same_frame w (snd (to_fetch rq w))"
  by (simp add: to_fetch_def same_frame_def split: reqs.splits option.splits)

lemma same_frame_fetch: "same_frame w (fetch w)"
  by (simp add: fetch_def same_frame_def emit_def)

lemma same_frame_and_then:
  assumes "same_frame w (snd r)" and "\<And>w1. same_frame w1 (snd (f w1))"
  shows "same_frame w (snd (and_then r f))"
  using assms by (cases r) (auto simp: and_then_def split: option.splits intro: same_frame_trans)

lemma same_frame_refresh_and_keep: "same_frame w (snd (refresh_and_keep rq w))"
  unfolding refresh_and_keep_def
  apply (rule same_frame_and_then [OF same_frame_to_fetch])
  apply (auto simp: Let_def same_frame_def fetch_def emit_def split: reqs.splits)
  done

lemma same_frame_run_call: "same_frame w (snd (run_call c w))"
  by (cases c) (simp_all add: same_frame_send same_frame_to_fetch same_frame_fetch same_frame_refresh_and_keep)

lemma same_frame_run_calls: "same_frame w (snd (run_calls cs w))"
proof (induction cs arbitrary: w)
  case Nil
  show ?case by simp
next
  case (Cons c cs)
  show ?case
    by (simp, rule same_frame_and_then [OF same_frame_run_call]) (rule Cons.IH)
qed

lemma same_frame_invoke: "same_frame w (snd (invoke a out w))"
proof -
  have "same_frame w (snd (run_calls (calls out) (emit [a] w)))"
    by (rule same_frame_trans [OF same_frame_emit same_frame_run_calls])
  then show ?thesis
    by (auto simp: invoke_def same_frame_def split: prod.splits option.splits)
qed

lemma same_frame_on_add_seeds: "same_frame w (snd (on_add_seeds S seeds w))"
  unfolding on_add_seeds_def Let_def
  by (rule same_frame_and_then [OF same_frame_trans [OF _ same_frame_invoke]])
     (auto intro: same_frame_emit')

lemma same_frame_on_page_crawled: "same_frame w (snd (on_page_crawled S r w))"
  unfolding on_page_crawled_def Let_def
  by (rule same_frame_and_then [OF same_frame_trans [OF _ same_frame_invoke]])
     (auto intro: same_frame_emit')

lemma same_frame_on_links_extracted: "same_frame w (snd (on_links_extracted S r ls w))"
  unfolding on_links_extracted_def Let_def
  by (rule same_frame_and_then [OF same_frame_trans [OF _ same_frame_invoke]])
     (auto intro: same_frame_emit')

lemma same_frame_on_request_error: "same_frame w (snd (on_request_error S r e w))"
  unfolding on_request_error_def Let_def
  by (rule same_frame_and_then [OF same_frame_trans [OF _ same_frame_invoke]])
     (auto intro: same_frame_emit')

lemma same_frame_counter:
  "same_frame w1 (w1\<lparr>consumed_add_seeds := a\<rparr>)"
  "same_frame w1 (w1\<lparr>consumed_page_crawled := a\<rparr>)"
  "same_frame w1 (w1\<lparr>consumed_links_extracted := a\<rparr>)"
  "same_frame w1 (w1\<lparr>consumed_request_error := a\<rparr>)"
  by (simp_all add: same_frame_def)

lemma same_frame_dispatch: "same_frame w (snd (dispatch S m w))"
proof (cases m)
  case (AddSeeds seeds)
  then show ?thesis
    by (simp add: dispatch_def Let_def)
       (rule same_frame_and_then [OF same_frame_on_add_seeds], simp add: same_frame_counter)
next
  case (PageCrawled r)
  then show ?thesis
    by (simp add: dispatch_def)
       (intro impI same_frame_and_then [OF same_frame_on_page_crawled], simp add: same_frame_counter)
next
  case (LinksExtracted r ls)
  then show ?thesis
    by (simp add: dispatch_def)
       (intro impI same_frame_and_then [OF same_frame_on_links_extracted], simp add: same_frame_counter)
next
  case (RequestError r e)
  then show ?thesis
    by (simp add: dispatch_def)
       (intro impI same_frame_and_then [OF same_frame_on_request_error], simp add: same_frame_counter)
qed (simp_all add: dispatch_def on_unknown_message_def)

lemma same_frame_process_msg: "same_frame w (process_msg S m w)"
  using same_frame_dispatch [of w S m]
  by (auto simp: process_msg_def split: prod.splits option.splits intro: same_frame_emit')

lemma same_frame_process_batch: "same_frame w (process_batch S batch w)"
  by (induction batch arbitrary: w) (auto intro: same_frame_trans [OF same_frame_process_msg])

lemma same_frame_classify: "same_frame w (snd (classify m w))"
  by (cases m)
     (auto simp: classify_def collect_unknown_message_def same_frame_to_fetch
           intro!: same_frame_and_then [OF same_frame_to_fetch])

lemma same_frame_collect_loop: "same_frame w (snd (collect_loop decode ms batch consumed w))"
proof (induction ms arbitrary: batch consumed w)
  case Nil
  show ?case by simp
next
  case (Cons m ms)
  show ?case
  proof (cases "decode m")
    case (Inl e)
    then show ?thesis
      by (auto intro: same_frame_trans [OF same_frame_emit Cons.IH])
  next
    case (Inr msg)
    have c: "same_frame w (snd (classify msg w))" by (rule same_frame_classify)
    show ?thesis
    proof (cases "classify msg w")
      case (Pair r w')
      with c have "same_frame w w'" by simp
      then have "same_frame w (emit [LogException x] w')" for x
        by (rule same_frame_emit')
      with Inr Pair \<open>same_frame w w'\<close> show ?thesis
        by (cases r) (auto intro: same_frame_trans [OF _ Cons.IH])
    qed
  qed
qed

subsection \<open>The scratch state of the StatesContext\<close>

lemma pending_run_call:
  "sc_fingerprints w = {} \<Longrightarrow> not_to_fetch c \<Longrightarrow> sc_fingerprints (snd (run_call c w)) = {}"
  by (cases c)
     (auto simp: send_def emit_def fetch_def refresh_and_keep_def and_then_def to_fetch_def Let_def
           split: reqs.splits option.splits)

lemma pending_run_calls:
  "sc_fingerprints w = {} \<Longrightarrow> list_all not_to_fetch cs \<Longrightarrow> sc_fingerprints (snd (run_calls cs w)) = {}"
proof (induction cs arbitrary: w)
  case Nil
  then show ?case by simp
next
  case (Cons c cs)
  from Cons.prems have e: "sc_fingerprints (snd (run_call c w)) = {}"
    by (simp add: pending_run_call)
  show ?case
  proof (cases "run_call c w")
    case (Pair r w1)
    with e Cons show ?thesis by (cases r) (auto simp: and_then_def)
  qed
qed

lemma pending_invoke:
  "sc_fingerprints w = {} \<Longrightarrow> list_all not_to_fetch (calls out) \<Longrightarrow>
   sc_fingerprints (snd (invoke a out w)) = {}"
  using pending_run_calls [of "emit [a] w" "calls out"]
  by (auto simp: invoke_def emit_def split: prod.splits option.splits)

lemma pending_and_then_emit:
  "sc_fingerprints (snd r) = {} \<Longrightarrow>
   sc_fingerprints (snd (and_then r (\<lambda>w3. (None, emit as w3)))) = {}"
  by (cases r) (auto simp: and_then_def emit_def split: option.splits)

lemma pending_dispatch:
  assumes "sc_fingerprints w = {}" and "never_calls_to_fetch S"
  shows "sc_fingerprints (snd (dispatch S m w)) = {}"
proof -
  have inv: "sc_fingerprints (snd (invoke a out (emit bs (emit as w)))) = {}"
    if "list_all not_to_fetch (calls out)" for a out as bs
    using assms(1) that by (intro pending_invoke) (simp_all add: emit_def)
  have cnt: "sc_fingerprints (snd (and_then r f)) = {}"
    if "sc_fingerprints (snd r) = {}" "\<And>w1. sc_fingerprints (snd (f w1)) = sc_fingerprints w1"
    for r and f :: "'a worker \<Rightarrow> exn option \<times> 'a worker"
    using that by (cases r) (auto simp: and_then_def split: option.splits)
  show ?thesis
  proof (cases m)
    case (AddSeeds seeds)
    then show ?thesis
      using assms(2)
      by (auto simp: dispatch_def on_add_seeds_def Let_def never_calls_to_fetch_def
               intro!: cnt pending_and_then_emit inv)
  next
    case (PageCrawled r)
    then show ?thesis
      using assms
      by (auto simp: dispatch_def on_page_crawled_def Let_def never_calls_to_fetch_def
               intro!: cnt pending_and_then_emit inv)
  next
    case (LinksExtracted r ls)
    then show ?thesis
      using assms
      by (auto simp: dispatch_def on_links_extracted_def Let_def never_calls_to_fetch_def
               intro!: cnt pending_and_then_emit inv)
  next
    case (RequestError r e)
    then show ?thesis
      using assms
      by (auto simp: dispatch_def on_request_error_def Let_def never_calls_to_fetch_def
               intro!: cnt pending_and_then_emit inv)
  qed (simp_all add: dispatch_def on_unknown_message_def assms(1))
qed

lemma pending_process_msg:
  "sc_fingerprints w = {} \<Longrightarrow> never_calls_to_fetch S \<Longrightarrow> sc_fingerprints (process_msg S m w) = {}"
  using pending_dispatch [of w S m]
  by (auto simp: process_msg_def emit_def split: prod.splits option.splits)

lemma pending_process_batch:
  "sc_fingerprints w = {} \<Longrightarrow> never_calls_to_fetch S \<Longrightarrow> sc_fingerprints (process_batch S batch w) = {}"
  by (induction batch arbitrary: w) (auto simp: pending_process_msg)

lemma stop_tasks_eq:
  "stop_tasks w =
     (None, w\<lparr>task_running := False, flush_states_task_running := False,
              logging_task_running := False,
              trace := trace w @ Log INFO ''Stopping periodic tasks.'' [] # task_stops w\<rparr>)"
  by (cases w)
     (simp add: stop_tasks_def looping_call_stop_def and_then_def emit_def task_stops_def Let_def)

lemma scratch_fetch [simp]: "sc_fingerprints (fetch w) = {}" "sc_requests (fetch w) = sc_requests w"
  by (simp_all add: fetch_def emit_def)

lemma scratch_release [simp]:
  "sc_requests (release w) = []" "sc_fingerprints (release w) = sc_fingerprints w"
  by (simp_all add: release_def emit_def)

lemmas eval_defs =
  work_def collect_batch_def classify_def to_fetch_def fetch_def release_def emit_def
  and_then_def process_msg_def dispatch_def on_add_seeds_def on_page_crawled_def
  on_links_extracted_def on_request_error_def invoke_def send_def refresh_and_keep_def
  update_score_flush_def on_unknown_message_def collect_unknown_message_def
  exit_if_finished_def stop_tasks_eq call_later_def Let_def init_def decode_ex_def plain_strategy_def
  req_a_def req_b_def req_c_def req_nofp_def req_old_def hexlify_def hex_digit_def

subsection \<open>Accounting for the trace\<close>

lemma same_frame_prefix: "same_frame w w' \<Longrightarrow> prefix (trace w) (trace w')"
  by (simp add: same_frame_def)

lemma new_actions_self [simp]: "new_actions w w = []"
  by (simp add: new_actions_def)

lemma new_actions_emit [simp]: "new_actions w (emit as w) = as"
  by (simp add: new_actions_def emit_def)

lemma new_actions_append: "trace w' = trace w @ as \<Longrightarrow> new_actions w w' = as"
  by (simp add: new_actions_def)


lemma new_actions_trans:
  "prefix (trace w) (trace w1) \<Longrightarrow> prefix (trace w1) (trace w2) \<Longrightarrow>
   new_actions w w2 = new_actions w w1 @ new_actions w1 w2"
  by (auto simp: new_actions_def prefix_def)

lemma new_actions_frame:
  "same_frame w w1 \<Longrightarrow> same_frame w1 w2 \<Longrightarrow>
   new_actions w w2 = new_actions w w1 @ new_actions w1 w2"
  by (rule new_actions_trans) (simp_all add: same_frame_prefix)

lemma handler_calls_frame:
  "same_frame w w1 \<Longrightarrow> same_frame w1 w2 \<Longrightarrow>
   handler_calls w w2 = handler_calls w w1 @ handler_calls w1 w2"
  unfolding handler_calls_def by (subst new_actions_frame [of w w1 w2]) simp_all

lemma handler_calls_self [simp]: "handler_calls w w = []"
  by (simp add: handler_calls_def)

lemma handler_calls_emit [simp]: "handler_calls w (emit as w) = filter handler_call as"
  by (simp add: handler_calls_def)

lemma handler_calls_same_trace: "trace w' = trace w'' \<Longrightarrow> handler_calls w w' = handler_calls w w''"
  by (simp add: handler_calls_def new_actions_def)

lemma handler_calls_and_then:
  assumes "same_frame w (snd r)" and "\<And>w1. same_frame w1 (snd (f w1))"
    and "\<And>w1. handler_calls w1 (snd (f w1)) = []"
  shows "handler_calls w (snd (and_then r f)) = handler_calls w (snd r)"
proof (cases r)
  case (Pair x w1)
  show ?thesis
  proof (cases x)
    case None
    have "handler_calls w (snd (f w1)) = handler_calls w w1 @ handler_calls w1 (snd (f w1))"
      using assms(1,2) Pair by (intro handler_calls_frame) simp_all
    with Pair None assms(3) show ?thesis
      by (simp add: and_then_def)
  next
    case (Some e)
    with Pair show ?thesis by (simp add: and_then_def)
  qed
qed

lemma handler_calls_to_fetch [simp]: "handler_calls w (snd (to_fetch rq w)) = []"
  by (simp add: to_fetch_def handler_calls_def new_actions_def split: reqs.splits option.splits)

lemma handler_calls_fetch [simp]: "handler_calls w (fetch w) = []"
  by (simp add: fetch_def handler_calls_def new_actions_def emit_def)

lemma handler_calls_run_call: "handler_calls w (snd (run_call c w)) = []"
proof (cases c)
  case (RefreshAndKeep rq)
  have "handler_calls w (snd (refresh_and_keep rq w)) = handler_calls w (snd (to_fetch rq w))"
    unfolding refresh_and_keep_def
    by (rule handler_calls_and_then [OF same_frame_to_fetch])
       (auto simp: Let_def same_frame_def fetch_def emit_def handler_calls_def new_actions_def
             split: reqs.splits)
  with RefreshAndKeep show ?thesis by simp
qed (simp_all add: send_def)

lemma handler_calls_run_calls: "handler_calls w (snd (run_calls cs w)) = []"
proof (induction cs arbitrary: w)
  case Nil
  show ?case by simp
next
  case (Cons c cs)
  have "handler_calls w (snd (and_then (run_call c w) (run_calls cs))) =
        handler_calls w (snd (run_call c w))"
    by (rule handler_calls_and_then [OF same_frame_run_call same_frame_run_calls Cons.IH])
  then show ?case by (simp add: handler_calls_run_call)
qed

lemma handler_calls_invoke:
  "handler_calls w (snd (invoke a out w)) = filter handler_call [a]"
proof -
  have "handler_calls w (snd (run_calls (calls out) (emit [a] w))) =
        handler_calls w (emit [a] w) @ handler_calls (emit [a] w) (snd (run_calls (calls out) (emit [a] w)))"
    by (rule handler_calls_frame [OF same_frame_emit same_frame_run_calls])
  then have "handler_calls w (snd (run_calls (calls out) (emit [a] w))) = filter handler_call [a]"
    by (simp add: handler_calls_run_calls)
  moreover have "trace (snd (invoke a out w)) = trace (snd (run_calls (calls out) (emit [a] w)))"
    by (simp add: invoke_def split: prod.splits option.splits)
  ultimately show ?thesis
    using handler_calls_same_trace by metis
qed

lemma handler_calls_handler:
  assumes "filter handler_call as = []" and "filter handler_call bs = []" and "handler_call a"
    and "filter handler_call cs = []"
  shows "handler_calls w (snd (and_then (invoke a out (emit bs (emit as w)))
            (\<lambda>w3. (None, emit cs w3)))) = [a]"
    (is "handler_calls w (snd (and_then ?r ?f)) = _")
proof -
  let ?w2 = "emit bs (emit as w)"
  have f: "same_frame w ?w2" by (simp add: same_frame_emit')
  have i: "same_frame ?w2 (snd ?r)" by (rule same_frame_invoke)
  have w2: "handler_calls w ?w2 = []"
    using assms(1,2) by (simp add: handler_calls_def new_actions_def emit_def)
  have "handler_calls w (snd ?r) = handler_calls w ?w2 @ handler_calls ?w2 (snd ?r)"
    by (rule handler_calls_frame [OF f i])
  then have r: "handler_calls w (snd ?r) = [a]"
    using assms(3) by (simp add: w2 handler_calls_invoke)
  have "handler_calls w (snd (and_then ?r ?f)) = handler_calls w (snd ?r)"
    by (rule handler_calls_and_then [OF same_frame_trans [OF f i]])
       (simp_all add: assms(4))
  with r show ?thesis by simp
qed

subsection \<open>Score emission\<close>

text \<open>
  C6. \<^verbatim>\<open>UpdateScoreStream.send(request, score, dont_queue)\<close> encodes the request, the
  score and \<open>schedule = \<not> dont_queue\<close> (an omitted score is \<open>1.0\<close>, an omitted
  \<^verbatim>\<open>dont_queue\<close> gives \<open>schedule = True\<close>) and hands exactly one encoded record to the
  producer under the key \<open>None\<close>; nothing else of the worker changes. \<^verbatim>\<open>flush\<close> does
  nothing.
\<close>

theorem send_pushes_one_record:
  "send request score dont_queue w =
     w\<lparr>trace := trace w @
          [ProducerSend None
             (UpdateScore request (case score of None \<Rightarrow> 1 | Some s \<Rightarrow> s)
                (case dont_queue of None \<Rightarrow> True | Some dq \<Rightarrow> \<not> dq))]\<rparr>
   \<and> update_score_flush w = w"
  by (simp add: send_def emit_def update_score_flush_def split: option.splits)

theorem send_pushes_one_record_witness:
  "trace (send \<lparr>url = ''/a'', fingerprint = Some ''aa'', jid = Some 7\<rparr> (Some 0.5) (Some True)
            (init 10 ())) =
     [ProducerSend None (UpdateScore \<lparr>url = ''/a'', fingerprint = Some ''aa'', jid = Some 7\<rparr> 0.5 False)]"
  using send_pushes_one_record
    [of "\<lparr>url = ''/a'', fingerprint = Some ''aa'', jid = Some 7\<rparr>" "Some 0.5" "Some True" "init 10 ()"]
  by (simp add: init_def)

text \<open>
  A tick in which \<^verbatim>\<open>page_crawled\<close> calls \<^verbatim>\<open>send(response, score=0.5, dont_queue=True)\<close>:
  the producer is handed one record.
\<close>

lemma score_emission_in_tick:
  "filter (\<lambda>a. case a of ProducerSend k e \<Rightarrow> True | _ \<Rightarrow> False)
     (trace (snd (work plain_strategy decode_ex [''page''] (init 10 0)))) =
   [ProducerSend None (UpdateScore req_a 0.5 False)]"
  by (simp add: eval_defs)

subsection \<open>Scratch state between batches\<close>

text \<open>
  \<^verbatim>\<open>release\<close> writes the touched requests back and empties that list; the set of
  pending fingerprints is not its business: \<^verbatim>\<open>fetch\<close> empties it. From a state with a
  pending fingerprint, \<^verbatim>\<open>release\<close> returns with it still pending.
\<close>

theorem release_keeps_pending_fetch:
  "sc_fingerprints (release ((init 10 ())\<lparr>sc_fingerprints := {''aa''}\<rparr>)) = {''aa''}"
  by (simp add: release_def emit_def init_def)

text \<open>
  A handler that calls \<^verbatim>\<open>to_fetch\<close> after the tick's \<^verbatim>\<open>fetch\<close> leaves its fingerprints
  pending at the end of the tick.
\<close>

lemma bare_to_fetch_stays_pending:
  "sc_fingerprints (snd (work enrolling_strategy decode_ex [''page''] (init 10 0))) = {''aa''}"
  by (simp add: eval_defs enrolling_strategy_def)

text \<open>
  C7, as the code has it. \<^verbatim>\<open>fetch\<close> empties the pending set, \<^verbatim>\<open>release\<close> empties the
  touched list and leaves the pending set alone. After a work tick that returns, from any
  scratch state, the touched list is empty and, when no handler of the strategy enrolls
  fingerprints with a bare \<^verbatim>\<open>to_fetch\<close>, so is the pending set.
\<close>

theorem scratch_empty_after_tick:
  "sc_fingerprints (fetch w) = {} \<and> sc_requests (release w) = [] \<and>
   sc_fingerprints (release w) = sc_fingerprints w \<and>
   (fst (work S decode ms w) = None \<and> never_calls_to_fetch S \<longrightarrow>
      sc_fingerprints (snd (work S decode ms w)) = {} \<and>
      sc_requests (snd (work S decode ms w)) = [])"
proof (intro conjI impI)
  assume h: "fst (work S decode ms w) = None \<and> never_calls_to_fetch S"
  obtain res w1 where c: "collect_batch decode ms w = (res, w1)" by (cases "collect_batch decode ms w")
  with h obtain batch consumed where r: "res = Inr (batch, consumed)"
    by (cases res) (auto simp: work_def)
  have p: "sc_fingerprints (process_batch S batch (fetch w1)) = {}"
    using h by (simp add: pending_process_batch)
  show "sc_fingerprints (snd (work S decode ms w)) = {}"
    using p by (simp add: work_def exit_if_finished_def c r Let_def update_score_flush_def stop_tasks_eq
                  and_then_def call_later_def emit_def)
  show "sc_requests (snd (work S decode ms w)) = []"
    by (simp add: work_def exit_if_finished_def c r Let_def update_score_flush_def stop_tasks_eq
          and_then_def call_later_def emit_def)
qed simp_all

theorem scratch_empty_after_tick_witness:
  "sc_fingerprints (snd (work plain_strategy decode_ex [''seeds'', ''links'', ''page''] (init 10 0))) = {} \<and>
   sc_requests (snd (work plain_strategy decode_ex [''seeds'', ''links'', ''page''] (init 10 0))) = []"
proof -
  have 1: "fst (work plain_strategy decode_ex [''seeds'', ''links'', ''page''] (init 10 0)) = None"
    by (simp add: eval_defs)
  have 2: "never_calls_to_fetch plain_strategy"
    by (simp add: never_calls_to_fetch_def plain_strategy_def)
  show ?thesis
    using scratch_empty_after_tick
      [of "init 10 0" plain_strategy decode_ex "[''seeds'', ''links'', ''page'']"] 1 2
    by blast
qed

subsection \<open>Dispatch of a batch\<close>

lemma filter_handler_call_logs [simp]:
  "filter handler_call (map (\<lambda>x. Log l s (f x)) xs) = []"
  by (induction xs) simp_all

lemma handler_calls_on_add_seeds:
  "handler_calls w (snd (on_add_seeds S seeds w)) = [StrategyAddSeeds seeds]"
  unfolding on_add_seeds_def Let_def
  by (rule handler_calls_handler) simp_all

lemma handler_calls_on_page_crawled:
  "handler_calls w (snd (on_page_crawled S r w)) = [StrategyPageCrawled r]"
  unfolding on_page_crawled_def Let_def
  by (rule handler_calls_handler) simp_all

lemma handler_calls_on_links_extracted:
  "handler_calls w (snd (on_links_extracted S r ls w)) = [StrategyLinksExtracted r ls]"
  unfolding on_links_extracted_def Let_def
  by (rule handler_calls_handler) simp_all

lemma handler_calls_on_request_error:
  "handler_calls w (snd (on_request_error S r e w)) = [StrategyPageError r e]"
  unfolding on_request_error_def Let_def
  by (rule handler_calls_handler) simp_all

lemma handler_calls_counter:
  "handler_calls w1 (w1\<lparr>consumed_add_seeds := a\<rparr>) = []"
  "handler_calls w1 (w1\<lparr>consumed_page_crawled := a\<rparr>) = []"
  "handler_calls w1 (w1\<lparr>consumed_links_extracted := a\<rparr>) = []"
  "handler_calls w1 (w1\<lparr>consumed_request_error := a\<rparr>) = []"
  by (simp_all add: handler_calls_def new_actions_def)

lemma handler_calls_dispatch:
  "handler_calls w (snd (dispatch S m w)) = expected_call (job_id w) m"
proof (cases m)
  case (AddSeeds seeds)
  have "handler_calls w (snd (and_then (on_add_seeds S seeds' w)
          (\<lambda>w'. (None, w'\<lparr>consumed_add_seeds := consumed_add_seeds w' + 1\<rparr>)))) =
        handler_calls w (snd (on_add_seeds S seeds' w))" for seeds'
    by (rule handler_calls_and_then [OF same_frame_on_add_seeds])
       (simp_all add: same_frame_counter handler_calls_counter)
  with AddSeeds show ?thesis
    by (simp add: dispatch_def Let_def handler_calls_on_add_seeds)
next
  case (PageCrawled r)
  have "handler_calls w (snd (and_then (on_page_crawled S r w)
          (\<lambda>w'. (None, w'\<lparr>consumed_page_crawled := consumed_page_crawled w' + 1\<rparr>)))) =
        handler_calls w (snd (on_page_crawled S r w))"
    by (rule handler_calls_and_then [OF same_frame_on_page_crawled])
       (simp_all add: same_frame_counter handler_calls_counter)
  with PageCrawled show ?thesis
    by (auto simp: dispatch_def handler_calls_on_page_crawled)
next
  case (LinksExtracted r ls)
  have "handler_calls w (snd (and_then (on_links_extracted S r ls w)
          (\<lambda>w'. (None, w'\<lparr>consumed_links_extracted := consumed_links_extracted w' + 1\<rparr>)))) =
        handler_calls w (snd (on_links_extracted S r ls w))"
    by (rule handler_calls_and_then [OF same_frame_on_links_extracted])
       (simp_all add: same_frame_counter handler_calls_counter)
  with LinksExtracted show ?thesis
    by (auto simp: dispatch_def handler_calls_on_links_extracted)
next
  case (RequestError r e)
  have "handler_calls w (snd (and_then (on_request_error S r e w)
          (\<lambda>w'. (None, w'\<lparr>consumed_request_error := consumed_request_error w' + 1\<rparr>)))) =
        handler_calls w (snd (on_request_error S r e w))"
    by (rule handler_calls_and_then [OF same_frame_on_request_error])
       (simp_all add: same_frame_counter handler_calls_counter)
  with RequestError show ?thesis
    by (auto simp: dispatch_def handler_calls_on_request_error)
qed (simp_all add: dispatch_def on_unknown_message_def)

lemma handler_calls_process_msg:
  "handler_calls w (process_msg S m w) = expected_call (job_id w) m"
proof (cases "dispatch S m w")
  case (Pair x w')
  have d: "handler_calls w w' = expected_call (job_id w) m"
    using handler_calls_dispatch [of w S m] Pair by simp
  have f: "same_frame w w'" using same_frame_dispatch [of w S m] Pair by simp
  show ?thesis
  proof (cases x)
    case None
    with Pair d show ?thesis by (simp add: process_msg_def)
  next
    case (Some e)
    have "handler_calls w (emit [LogException e] w') =
          handler_calls w w' @ handler_calls w' (emit [LogException e] w')"
      by (rule handler_calls_frame [OF f same_frame_emit])
    with Pair Some d show ?thesis by (simp add: process_msg_def)
  qed
qed

lemma job_id_process_msg [simp]: "job_id (process_msg S m w) = job_id w"
  using same_frame_process_msg [of w S m] by (simp add: same_frame_def)

lemma handler_calls_process_batch:
  "handler_calls w (process_batch S batch w) = concat (map (expected_call (job_id w)) batch)"
proof (induction batch arbitrary: w)
  case Nil
  show ?case by simp
next
  case (Cons m batch)
  have "handler_calls w (process_batch S batch (process_msg S m w)) =
        handler_calls w (process_msg S m w) @
        handler_calls (process_msg S m w) (process_batch S batch (process_msg S m w))"
    by (rule handler_calls_frame [OF same_frame_process_msg same_frame_process_batch])
  then show ?case
    by (simp add: handler_calls_process_msg Cons.IH)
qed

lemma stale_dispatch:
  "jid_differs (job_id w) m \<or> jid_missing m \<Longrightarrow> dispatch S m w = (None, w)"
  by (cases m) (auto simp: jid_differs_def jid_missing_def dispatch_def split: option.splits)

lemma stale_process_msg:
  "jid_differs (job_id w) m \<or> jid_missing m \<Longrightarrow> process_msg S m w = w"
  by (simp add: process_msg_def stale_dispatch)

lemma process_batch_filter:
  assumes "\<And>m w. P (job_id w) m \<Longrightarrow> process_msg S m w = (w :: 's worker)"
  shows "process_batch S batch w = process_batch S (filter (\<lambda>m. \<not> P (job_id w) m) batch) w"
proof (induction batch arbitrary: w)
  case Nil
  show ?case by simp
next
  case (Cons m batch)
  show ?case
  proof (cases "P (job_id w) m")
    case True
    with assms have "process_msg S m w = w" by simp
    with True Cons.IH [of w] show ?thesis by simp
  next
    case False
    with Cons.IH [of "process_msg S m w"] show ?thesis by simp
  qed
qed



lemma classify_collects:
  "fingerprints_of (referenced m) = Some fs \<Longrightarrow>
   classify m w = (None, (snd (classify m w))) \<and>
   sc_fingerprints (snd (classify m w)) = sc_fingerprints w \<union> set fs"
  by (cases m)
     (auto simp: classify_def to_fetch_def and_then_def collect_unknown_message_def emit_def
           split: option.splits)

text \<open>
  C10. A \<^verbatim>\<open>page_crawled\<close>, \<^verbatim>\<open>links_extracted\<close> or \<^verbatim>\<open>request_error\<close> message
  whose carrier has no \<^verbatim>\<open>jid\<close> key is dropped by \<^verbatim>\<open>process_batch\<close> as a mismatched
  one is: the worker is left as it was (no handler, no counter), and the batch may be
  read without such messages. Collection does not look at the \<^verbatim>\<open>jid\<close>: when the
  requests of the message carry fingerprints, these were all added to the pending set.
\<close>

theorem missing_jid_dropped:
  "(jid_missing m \<longrightarrow> process_msg S m w = w) \<and>
   process_batch S batch w = process_batch S (filter (\<lambda>m. \<not> jid_missing m) batch) w \<and>
   (jid_missing m \<and> fingerprints_of (referenced m) = Some fs \<longrightarrow>
      fst (classify m w) = None \<and>
      sc_fingerprints (snd (classify m w)) = sc_fingerprints w \<union> set fs)"
proof (intro conjI impI)
  show "process_msg S m w = w" if "jid_missing m"
    using that by (simp add: stale_process_msg)
  show "process_batch S batch w = process_batch S (filter (\<lambda>m. \<not> jid_missing m) batch) w"
    by (rule process_batch_filter [where P = "\<lambda>j m. jid_missing m"]) (simp add: stale_process_msg)
  assume h: "jid_missing m \<and> fingerprints_of (referenced m) = Some fs"
  then show "fst (classify m w) = None"
    using classify_collects [of m fs w] by (metis fst_conv)
  from h show "sc_fingerprints (snd (classify m w)) = sc_fingerprints w \<union> set fs"
    using classify_collects [of m fs w] by simp
qed

theorem missing_jid_dropped_witness:
  "jid_missing (PageCrawled req_b) \<and>
   fingerprints_of (referenced (PageCrawled req_b)) = Some [''bb''] \<and>
   process_msg plain_strategy (PageCrawled req_b) (init 10 (0::nat)) = init 10 0 \<and>
   process_batch plain_strategy [PageCrawled req_b, PageCrawled req_a] (init 10 0) =
     process_batch plain_strategy [PageCrawled req_a] (init 10 0) \<and>
   fst (classify (PageCrawled req_b) (init 10 (0::nat))) = None \<and>
   sc_fingerprints (snd (classify (PageCrawled req_b) (init 10 (0::nat)))) = {''bb''}"
proof -
  have h: "jid_missing (PageCrawled req_b)"
    by (simp add: jid_missing_def req_b_def)
  have a: "\<not> jid_missing (PageCrawled req_a)"
    by (simp add: jid_missing_def req_a_def)
  have f: "fingerprints_of (referenced (PageCrawled req_b)) = Some [''bb'']"
    by (simp add: req_b_def)
  have e: "sc_fingerprints (init 10 (0::nat)) = {}"
    by (simp add: init_def)
  show ?thesis
    using h a f e missing_jid_dropped
      [of "PageCrawled req_b" plain_strategy "init 10 (0::nat)"
          "[PageCrawled req_b, PageCrawled req_a]" "[''bb'']"]
    by simp
qed

text \<open>
  C5. When the handling of one message raises, \<^verbatim>\<open>process_batch\<close> logs the exception
  and goes on with the rest of the batch from the state then reached. Whatever the
  handlers do, the handlers called over a batch are those of its messages that pass the
  \<^verbatim>\<open>jid\<close> check, one call each, in the order of the batch. \<^verbatim>\<open>process_batch\<close> itself
  has no exceptional exit: the model's function is total and returns the worker.
\<close>

theorem handler_exception_swallowed:
  "(dispatch S m w = (Some e, w') \<longrightarrow>
      process_batch S (m # rest) w = process_batch S rest (emit [LogException e] w')) \<and>
   handler_calls w (process_batch S batch w) = concat (map (expected_call (job_id w)) batch)"
  by (simp add: process_msg_def handler_calls_process_batch)

theorem handler_exception_swallowed_witness:
  "fst (dispatch plain_strategy (RequestError req_a ''timeout'') (init 10 0)) =
     Some (OtherError ''timeout'') \<and>
   process_batch plain_strategy [RequestError req_a ''timeout'', PageCrawled req_a] (init 10 0) =
     process_batch plain_strategy [PageCrawled req_a]
       (emit [LogException (OtherError ''timeout'')]
          (snd (dispatch plain_strategy (RequestError req_a ''timeout'') (init 10 0)))) \<and>
   handler_calls (init 10 0)
       (process_batch plain_strategy [RequestError req_a ''timeout'', PageCrawled req_a] (init 10 0)) =
     [StrategyPageError req_a ''timeout'', StrategyPageCrawled req_a]"
proof -
  have d: "fst (dispatch plain_strategy (RequestError req_a ''timeout'') (init 10 0)) =
           Some (OtherError ''timeout'')"
    by (simp add: eval_defs)
  then have p: "dispatch plain_strategy (RequestError req_a ''timeout'') (init 10 0) =
      (Some (OtherError ''timeout''),
       snd (dispatch plain_strategy (RequestError req_a ''timeout'') (init 10 0)))"
    by (metis prod.collapse)
  have j: "job_id (init 10 (0::nat)) = 0" "jid req_a = Some 0"
    by (simp_all add: init_def req_a_def)
  note t = handler_exception_swallowed
      [of plain_strategy "RequestError req_a ''timeout''" "init 10 0" "OtherError ''timeout''"
          "snd (dispatch plain_strategy (RequestError req_a ''timeout'') (init 10 0))"
          "[PageCrawled req_a]" "[RequestError req_a ''timeout'', PageCrawled req_a]"]
  from t p have a:
    "process_batch plain_strategy [RequestError req_a ''timeout'', PageCrawled req_a] (init 10 0) =
     process_batch plain_strategy [PageCrawled req_a]
       (emit [LogException (OtherError ''timeout'')]
          (snd (dispatch plain_strategy (RequestError req_a ''timeout'') (init 10 0))))"
    by blast
  from t have
    "handler_calls (init 10 0)
       (process_batch plain_strategy [RequestError req_a ''timeout'', PageCrawled req_a] (init 10 0)) =
     concat (map (expected_call (job_id (init 10 (0::nat))))
       [RequestError req_a ''timeout'', PageCrawled req_a])"
    by blast
  then have b:
    "handler_calls (init 10 0)
       (process_batch plain_strategy [RequestError req_a ''timeout'', PageCrawled req_a] (init 10 0)) =
     [StrategyPageError req_a ''timeout'', StrategyPageCrawled req_a]"
    by (simp add: j)
  from d a b show ?thesis by blast
qed

subsection \<open>Collecting with a failing decoder\<close>

lemma handler_calls_prefix:
  "prefix (trace w) (trace w1) \<Longrightarrow> prefix (trace w1) (trace w2) \<Longrightarrow>
   handler_calls w w2 = handler_calls w w1 @ handler_calls w1 w2"
  unfolding handler_calls_def by (subst new_actions_trans [of w w1 w2]) simp_all

lemma exit_if_finished_eq:
  "exit_if_finished S w =
     (None, if finished S (strategy_state w)
            then w\<lparr>task_running := False, flush_states_task_running := False,
                   logging_task_running := False,
                   delayed := delayed w @ [DeferredCallback],
                   trace := trace w @
                     [Log INFO ''Successfully reached the crawling goal.'' [],
                      Log INFO ''Finishing.'' [], Log INFO ''Stopping periodic tasks.'' []] @
                     task_stops w\<rparr>
            else w)"
  by (simp add: exit_if_finished_def stop_tasks_eq and_then_def call_later_def emit_def
        task_stops_def)

lemma filter_handler_call_task_stops [simp]: "filter handler_call (task_stops w) = []"
  by (simp add: task_stops_def)

lemma work_eq:
  assumes "collect_batch decode ms w = (Inr (batch, consumed), w1)"
  shows "work S decode ms w =
     (None, (snd (exit_if_finished S (release (process_batch S batch (fetch w1)))))
              \<lparr>last_consumed := Some consumed,
               consumed_since_start :=
                 consumed_since_start
                   (snd (exit_if_finished S (release (process_batch S batch (fetch w1))))) +
                 consumed\<rparr>)"
  by (simp add: work_def assms Let_def update_score_flush_def exit_if_finished_eq and_then_def)


lemma same_frame_collect_batch: "same_frame w (snd (collect_batch decode ms w))"
  unfolding collect_batch_def
  by (rule same_frame_trans [OF same_frame_emit same_frame_collect_loop])

lemma same_frame_release: "same_frame w (release w)"
  by (simp add: release_def same_frame_def emit_def)

lemma prefix_exit_if_finished: "prefix (trace w) (trace (snd (exit_if_finished S w)))"
  by (simp add: exit_if_finished_eq)

lemma handler_calls_exit_if_finished [simp]:
  "handler_calls w (snd (exit_if_finished S w)) = []"
  by (simp add: exit_if_finished_eq handler_calls_def new_actions_def)

lemma handler_calls_release [simp]: "handler_calls w (release w) = []"
  by (simp add: release_def handler_calls_def new_actions_def emit_def)

lemma job_id_fetch [simp]: "job_id (fetch w) = job_id w"
  by (simp add: fetch_def emit_def)

text \<open>From the fetch of a tick to its end.\<close>

lemma handler_calls_after_fetch:
  "handler_calls w2 (snd (exit_if_finished S (release (process_batch S batch w2)))) =
     concat (map (expected_call (job_id w2)) batch)"
proof -
  let ?w3 = "process_batch S batch w2"
  let ?w5 = "release ?w3"
  let ?w6 = "snd (exit_if_finished S ?w5)"
  have p3: "prefix (trace w2) (trace ?w3)"
    by (rule same_frame_prefix [OF same_frame_process_batch])
  have p5: "prefix (trace ?w3) (trace ?w5)"
    by (rule same_frame_prefix [OF same_frame_release])
  have p6: "prefix (trace ?w5) (trace ?w6)" by (rule prefix_exit_if_finished)
  have "handler_calls w2 ?w6 = handler_calls w2 ?w5 @ handler_calls ?w5 ?w6"
    by (rule handler_calls_prefix [OF prefix_order.trans [OF p3 p5] p6])
  moreover have "handler_calls w2 ?w5 = handler_calls w2 ?w3 @ handler_calls ?w3 ?w5"
    by (rule handler_calls_prefix [OF p3 p5])
  ultimately show ?thesis
    by (simp add: handler_calls_process_batch)
qed

lemma handler_calls_classify [simp]: "handler_calls w (snd (classify m w)) = []"
proof (cases m)
  case (LinksExtracted r ls)
  have "handler_calls w (snd (and_then (to_fetch (One r) w) (to_fetch (Many ls)))) =
        handler_calls w (snd (to_fetch (One r) w))"
    by (rule handler_calls_and_then [OF same_frame_to_fetch same_frame_to_fetch]) simp
  with LinksExtracted show ?thesis by (simp add: classify_def)
qed (simp_all add: classify_def collect_unknown_message_def)

lemma handler_calls_collect_loop:
  "handler_calls w (snd (collect_loop decode ms batch consumed w)) = []"
proof (induction ms arbitrary: batch consumed w)
  case Nil
  show ?case by simp
next
  case (Cons m ms)
  have step: "handler_calls w (snd (collect_loop decode ms b c w')) = []"
    if "same_frame w w'" "handler_calls w w' = []" for w' b c
    using handler_calls_frame [OF that(1) same_frame_collect_loop, of decode ms b c] that(2) Cons.IH
    by simp
  show ?case
  proof (cases "decode m")
    case (Inl e)
    then show ?thesis by (simp add: step)
  next
    case (Inr msg)
    obtain x w' where c: "classify msg w = (x, w')" by (cases "classify msg w")
    have f: "same_frame w w'" using same_frame_classify [of w msg] c by simp
    have h: "handler_calls w w' = []" using handler_calls_classify [of w msg] c by simp
    have f2: "same_frame w (emit as w')" for as by (rule same_frame_emit' [OF f])
    have h2: "handler_calls w (emit [LogException e] w') = []" for e
      using handler_calls_frame [OF f same_frame_emit, of "[LogException e]"] h by simp
    show ?thesis
      using Inr c by (cases x) (simp_all add: step f h f2 h2)
  qed
qed

lemma handler_calls_collect_batch [simp]:
  "handler_calls w (snd (collect_batch decode ms w)) = []"
  unfolding collect_batch_def
proof -
  let ?w0 = "emit [GetMessages (consumer_batch_size w)] w"
  have "handler_calls w (snd (collect_loop decode ms [] 0 ?w0)) =
        handler_calls w ?w0 @ handler_calls ?w0 (snd (collect_loop decode ms [] 0 ?w0))"
    by (rule handler_calls_frame [OF same_frame_emit same_frame_collect_loop])
  then show "handler_calls w (snd (collect_loop decode ms [] 0 ?w0)) = []"
    by (simp add: handler_calls_collect_loop)
qed

lemma handler_calls_stats [simp]:
  "handler_calls w (w'\<lparr>last_consumed := a, consumed_since_start := b\<rparr>) = handler_calls w w'"
  by (simp add: handler_calls_def new_actions_def)












subsection \<open>The fetch before dispatch\<close>

lemma pending_grows_to_fetch: "sc_fingerprints w \<subseteq> sc_fingerprints (snd (to_fetch rq w))"
  by (auto simp: to_fetch_def split: reqs.splits option.splits)

lemma pending_grows_classify: "sc_fingerprints w \<subseteq> sc_fingerprints (snd (classify m w))"
proof (cases m)
  case (LinksExtracted r ls)
  obtain x w' where t: "to_fetch (One r) w = (x, w')" by (cases "to_fetch (One r) w")
  have "sc_fingerprints w \<subseteq> sc_fingerprints w'"
    using pending_grows_to_fetch [of w "One r"] t by simp
  moreover have "sc_fingerprints w' \<subseteq> sc_fingerprints (snd (to_fetch (Many ls) w'))"
    by (rule pending_grows_to_fetch)
  ultimately show ?thesis
    using LinksExtracted t by (cases x) (auto simp: classify_def and_then_def)
qed (simp_all add: classify_def pending_grows_to_fetch collect_unknown_message_def emit_def)

lemma classify_raises:
  "(fst (classify m w) = None) = (fingerprints_of (referenced m) \<noteq> None)"
  by (cases m)
     (auto simp: classify_def to_fetch_def and_then_def split: option.splits)

lemma collect_loop_pending:
  assumes "collect_loop decode ms batch0 c0 w = (Inr (batch, consumed), w1)"
    and "\<And>m fs. m \<in> set batch0 \<Longrightarrow> fingerprints_of (referenced m) = Some fs \<Longrightarrow>
           set fs \<subseteq> sc_fingerprints w"
    and "m \<in> set batch" and "fingerprints_of (referenced m) = Some fs"
  shows "set fs \<subseteq> sc_fingerprints w1"
  using assms
proof (induction ms arbitrary: batch0 c0 w)
  case Nil
  then show ?case by auto
next
  case (Cons m' ms)
  show ?case
  proof (cases "decode m'")
    case (Inl e)
    with Cons.prems(1) have
      l: "collect_loop decode ms batch0 (c0 + 1)
            (emit [Log ERROR ''Decoding error:'' [], LogException e,
                   Log DEBUG ''Message %s'' [Str (hexlify m')]] w) = (Inr (batch, consumed), w1)"
      by (auto split: if_splits)
    show ?thesis
      by (rule Cons.IH [OF l _ Cons.prems(3,4)]) (simp add: emit_def Cons.prems(2))
  next
    case (Inr msg)
    obtain x w' where c: "classify msg w = (x, w')" by (cases "classify msg w")
    have g: "sc_fingerprints w \<subseteq> sc_fingerprints w'"
      using pending_grows_classify [of w msg] c by simp
    have n: "set fs' \<subseteq> sc_fingerprints w'"
      if "m'' \<in> set (batch0 @ [msg])" "fingerprints_of (referenced m'') = Some fs'" for m'' fs'
    proof (cases "m'' \<in> set batch0")
      case True
      with that(2) Cons.prems(2) g show ?thesis by blast
    next
      case False
      with that(1) have "m'' = msg" by simp
      with that(2) classify_collects [of msg fs' w] c show ?thesis by simp
    qed
    show ?thesis
    proof (cases x)
      case None
      with Cons.prems(1) Inr c have
        l: "collect_loop decode ms (batch0 @ [msg]) (c0 + 1) w' = (Inr (batch, consumed), w1)"
        by simp
      show ?thesis by (rule Cons.IH [OF l n Cons.prems(3,4)])
    next
      case (Some e)
      with Cons.prems(1) Inr c have
        l: "collect_loop decode ms (batch0 @ [msg]) (c0 + 1) (emit [LogException e] w') =
              (Inr (batch, consumed), w1)"
        by simp
      show ?thesis
        by (rule Cons.IH [OF l _ Cons.prems(3,4)]) (simp add: emit_def n)
    qed
  qed
qed

lemma collect_batch_pending:
  assumes "collect_batch decode ms w = (Inr (batch, consumed), w1)"
    and "m \<in> set batch" and "fingerprints_of (referenced m) = Some fs"
  shows "set fs \<subseteq> sc_fingerprints w1"
  by (rule collect_loop_pending [OF assms(1) [unfolded collect_batch_def] _ assms(2,3)]) simp

lemma trace_stats [simp]:
  "trace (w'\<lparr>last_consumed := a, consumed_since_start := b\<rparr>) = trace w'"
  by simp

text \<open>
  \<^verbatim>\<open>collect_batch\<close> appends the message to the batch before it enrolls the fingerprints,
  and an exception while enrolling is logged and dropped. A \<^verbatim>\<open>links_extracted\<close> message
  with one link that has no fingerprint is still dispatched, yet the fingerprint of its
  other link was in no \<^verbatim>\<open>fetch\<close> of the tick.
\<close>

theorem fetch_misses_link_fingerprint:
  "handler_calls (init 10 0) (snd (work plain_strategy decode_ex [''links2''] (init 10 0))) =
     [StrategyLinksExtracted req_a [req_c, req_nofp]] \<and>
   fingerprint req_c = Some ''cc'' \<and>
   filter fetch_call (trace (snd (work plain_strategy decode_ex [''links2''] (init 10 0)))) =
     [StatesFetch {''aa''}]"
  by (simp add: eval_defs handler_calls_def new_actions_def)

text \<open>
  C2, as the code has it. For every message of the batch whose requests all carry a
  fingerprint (that is, whose classification in \<^verbatim>\<open>collect_batch\<close> raised nothing), all
  these fingerprints are in the pending set when collection ends. No handler is called
  during collection; \<^verbatim>\<open>work\<close> then calls \<^verbatim>\<open>states.fetch\<close> with that set, and the
  handler calls of the tick, those of the batch, all come after it.
\<close>

theorem fetch_covers_batch:
  "(collect_batch decode ms w = (Inr (batch, consumed), w1) \<longrightarrow>
      (\<forall>m fs. m \<in> set batch \<and> fingerprints_of (referenced m) = Some fs \<longrightarrow>
         set fs \<subseteq> sc_fingerprints w1) \<and>
      handler_calls w w1 = [] \<and>
      prefix (trace w1 @ [StatesFetch (sc_fingerprints w1)]) (trace (snd (work S decode ms w))) \<and>
      handler_calls (fetch w1) (snd (work S decode ms w)) =
        concat (map (expected_call (job_id w)) batch)) \<and>
   (fst (classify m' w') = None) = (fingerprints_of (referenced m') \<noteq> None)"
proof (intro conjI impI allI)
  show "(fst (classify m' w') = None) = (fingerprints_of (referenced m') \<noteq> None)"
    by (rule classify_raises)
next
  assume c: "collect_batch decode ms w = (Inr (batch, consumed), w1)"
  let ?w6 = "snd (exit_if_finished S (release (process_batch S batch (fetch w1))))"
  have f1: "same_frame w w1" using same_frame_collect_batch [of w decode ms] c by simp
  show "handler_calls w w1 = []" using handler_calls_collect_batch [of w decode ms] c by simp
  have p6: "prefix (trace (fetch w1)) (trace ?w6)"
    by (rule prefix_order.trans [OF same_frame_prefix [OF same_frame_process_batch]
          prefix_order.trans [OF same_frame_prefix [OF same_frame_release]
            prefix_exit_if_finished]])
  then show "prefix (trace w1 @ [StatesFetch (sc_fingerprints w1)]) (trace (snd (work S decode ms w)))"
    by (simp add: work_eq [OF c] fetch_def emit_def)
  have "job_id w1 = job_id w" using f1 by (simp add: same_frame_def)
  then show "handler_calls (fetch w1) (snd (work S decode ms w)) =
        concat (map (expected_call (job_id w)) batch)"
    by (simp add: work_eq [OF c] handler_calls_after_fetch)
  show "set fs \<subseteq> sc_fingerprints w1"
    if "m \<in> set batch \<and> fingerprints_of (referenced m) = Some fs" for m fs
    using that collect_batch_pending [OF c] by blast
qed

theorem fetch_covers_batch_witness:
  "fst (collect_batch decode_ex [''seeds'', ''nojid''] (init 10 (0::nat))) =
     Inr ([AddSeeds [req_a, req_b], PageCrawled req_b], 2) \<and>
   {''aa'', ''bb''} \<subseteq> sc_fingerprints (snd (collect_batch decode_ex [''seeds'', ''nojid''] (init 10 (0::nat)))) \<and>
   handler_calls (init 10 (0::nat)) (snd (collect_batch decode_ex [''seeds'', ''nojid''] (init 10 (0::nat)))) = [] \<and>
   prefix (trace (snd (collect_batch decode_ex [''seeds'', ''nojid''] (init 10 (0::nat)))) @
             [StatesFetch (sc_fingerprints (snd (collect_batch decode_ex [''seeds'', ''nojid''] (init 10 (0::nat)))))])
     (trace (snd (work plain_strategy decode_ex [''seeds'', ''nojid''] (init 10 (0::nat))))) \<and>
   handler_calls (fetch (snd (collect_batch decode_ex [''seeds'', ''nojid''] (init 10 (0::nat)))))
       (snd (work plain_strategy decode_ex [''seeds'', ''nojid''] (init 10 (0::nat)))) =
     [StrategyAddSeeds [req_a\<lparr>jid := Some 0\<rparr>, req_b\<lparr>jid := Some 0\<rparr>]]"
proof -
  let ?c = "collect_batch decode_ex [''seeds'', ''nojid''] (init 10 (0::nat))"
  have r: "fst ?c = Inr ([AddSeeds [req_a, req_b], PageCrawled req_b], 2)"
    by (simp add: eval_defs)
  then have c: "?c = (Inr ([AddSeeds [req_a, req_b], PageCrawled req_b], 2), snd ?c)"
    by (metis prod.collapse)
  have m: "AddSeeds [req_a, req_b] \<in> set [AddSeeds [req_a, req_b], PageCrawled req_b] \<and>
           fingerprints_of (referenced (AddSeeds [req_a, req_b])) = Some [''aa'', ''bb'']"
    by (simp add: req_a_def req_b_def)
  have j: "job_id (init 10 (0::nat)) = 0" "jid req_b = None"
    by (simp_all add: init_def req_b_def)
  note t = fetch_covers_batch
    [of decode_ex "[''seeds'', ''nojid'']" "init 10 (0::nat)"
        "[AddSeeds [req_a, req_b], PageCrawled req_b]" 2 "snd ?c"
        plain_strategy "PageCrawled req_b" "init 10 (0::nat)"]
  note u = mp [OF conjunct1 [OF t] c]
  have "set [''aa'', ''bb''] \<subseteq> sc_fingerprints (snd ?c)"
    by (rule conjunct1 [OF u, rule_format, OF m])
  with u r show ?thesis
    by (simp add: j)
qed

subsection \<open>Write-back of handled requests\<close>

lemma covered_append [simp]: "covered r (as @ bs) = (covered r as \<or> covered r bs)"
  by (induction as) auto












lemma job_id_process_batch [simp]: "job_id (process_batch S batch w) = job_id w"
  using same_frame_process_batch [of w S batch] by (simp add: same_frame_def)



text \<open>
  The write-back of a wrapper follows the handler's call without a \<^verbatim>\<open>finally\<close>: when
  the handler raises, it is skipped.
\<close>

lemma raising_handler_skips_write_back:
  "handler_calls (init 10 0) (snd (work plain_strategy decode_ex [''error''] (init 10 0))) =
     [StrategyPageError req_a ''timeout''] \<and>
   \<not> covered req_a (trace (snd (work plain_strategy decode_ex [''error''] (init 10 0))))"
  by (simp add: eval_defs handler_calls_def new_actions_def)



subsection \<open>Draining and shutdown\<close>


lemma perform_shutdown_eq:
  "perform_shutdown w =
     emit [Log INFO ''Flushing states'' [], StatesFlush,
           Log INFO ''Flushing of states finished'' [],
           Log INFO ''Closing crawling strategy.'' [], StrategyClose,
           Log INFO ''Stopping frontier manager.'' [], ManagerStop,
           Log INFO ''Closing message bus.'' [], ProducerClose, ConsumerClose] w"
  by (simp add: perform_shutdown_def flush_states_def states_context_flush_def emit_def Let_def)

lemma stop_reactor_eq:
  "stop_reactor w =
     (None, w\<lparr>reactor_running := False,
              trace := trace w @ [Log INFO ''Stopping reactor.'' [], ReactorStop]\<rparr>)"
  by (cases w) (simp add: stop_reactor_def reactor_stop_def emit_def Let_def)

lemma deferred_callback_eq:
  "deferred_callback w =
     (None, w\<lparr>reactor_running := False,
              trace := trace w @
                [Log INFO ''Flushing states'' [], StatesFlush,
                 Log INFO ''Flushing of states finished'' [],
                 Log INFO ''Closing crawling strategy.'' [], StrategyClose,
                 Log INFO ''Stopping frontier manager.'' [], ManagerStop,
                 Log INFO ''Closing message bus.'' [], ProducerClose, ConsumerClose,
                 Log INFO ''Stopping reactor.'' [], ReactorStop]\<rparr>)"
  by (simp add: deferred_callback_def perform_shutdown_eq stop_reactor_eq emit_def)

lemma call_shutdown_eq:
  "call_shutdown w =
     (None, w\<lparr>task_running := False, flush_states_task_running := False,
              logging_task_running := False,
              delayed := delayed w @ [DeferredCallback],
              trace := trace w @ Log INFO ''Stopping periodic tasks.'' [] # task_stops w\<rparr>)"
  by (simp add: call_shutdown_def stop_tasks_eq and_then_def call_later_def)

lemma not_log_task_stops [simp]: "filter (\<lambda>a. \<not> log_call a) (task_stops w) = task_stops w"
  by (simp add: task_stops_def)

lemma not_poll_task_stops [simp]: "filter poll_call (task_stops w) = []"
  by (simp add: task_stops_def)

lemma signal_drain:
  assumes "delayed w = []"
  shows "run_events S decode [ShutdownSignal n, RunDelayed, RunDelayed] w =
     w\<lparr>task_running := False, flush_states_task_running := False,
       logging_task_running := False, reactor_running := False,
       trace := trace w @
         [Log INFO ''Received shutdown signal %d, shutting down gracefully.'' [Num n],
          Log INFO ''Stopping periodic tasks.'' []] @ task_stops w @
         [Log INFO ''Flushing states'' [], StatesFlush,
          Log INFO ''Flushing of states finished'' [],
          Log INFO ''Closing crawling strategy.'' [], StrategyClose,
          Log INFO ''Stopping frontier manager.'' [], ManagerStop,
          Log INFO ''Closing message bus.'' [], ProducerClose, ConsumerClose,
          Log INFO ''Stopping reactor.'' [], ReactorStop]\<rparr>"
  using assms
  by (cases w)
     (simp add: step_def handle_shutdown_def call_later_def emit_def call_shutdown_eq
        deferred_callback_eq task_stops_def)











lemma untraced_stopped:
  assumes "\<not> task_running w" "\<not> flush_states_task_running w" "\<not> logging_task_running w"
    "\<not> reactor_running w"
  shows "untraced (w\<lparr>task_running := False, flush_states_task_running := False,
            logging_task_running := False, reactor_running := False, trace := tr\<rparr>) = untraced w"
    and "untraced (w\<lparr>task_running := False, flush_states_task_running := False,
            logging_task_running := False, trace := tr\<rparr>) = untraced w"
  using assms by (cases w, simp add: untraced_def)+

lemma two_signals_drain:
  assumes "delayed w = []"
  shows "untraced (run_events S decode
            [ShutdownSignal n, ShutdownSignal n', RunDelayed, RunDelayed, RunDelayed, RunDelayed] w) =
         untraced (run_events S decode [ShutdownSignal n, RunDelayed, RunDelayed] w)"
  using assms
  by (cases w)
     (simp add: step_def handle_shutdown_def call_later_def emit_def call_shutdown_eq
        deferred_callback_eq untraced_def)

text \<open>
  C9. \<^verbatim>\<open>stop_tasks\<close> never raises, also on tasks that are all stopped (it does not call
  \<^verbatim>\<open>stop\<close> on a task that is not running), and neither does the drain, also when the
  reactor is already stopped (the \<^verbatim>\<open>RuntimeError\<close> is dropped). After a shutdown by one
  signal, all tasks and the reactor are stopped and nothing is pending; a second signal
  after that, a second signal before the first drain ran, or another \<^verbatim>\<open>stop_tasks\<close>
  leave every field of the worker as the single shutdown does. The second drain calls
  the collaborators again; only the record of the calls differs.
\<close>

theorem shutdown_idempotent:
  "fst (stop_tasks w) = None \<and> fst (stop_tasks (snd (stop_tasks w))) = None \<and>
   fst (deferred_callback w) = None \<and> fst (deferred_callback (snd (deferred_callback w))) = None \<and>
   (delayed w = [] \<longrightarrow>
      (let one = run_events S decode [ShutdownSignal n, RunDelayed, RunDelayed] w in
         \<not> task_running one \<and> \<not> flush_states_task_running one \<and>
         \<not> logging_task_running one \<and> \<not> reactor_running one \<and> delayed one = [] \<and>
         untraced (run_events S decode [ShutdownSignal n', RunDelayed, RunDelayed] one) =
           untraced one \<and>
         untraced (run_events S decode
            [ShutdownSignal n, ShutdownSignal n', RunDelayed, RunDelayed, RunDelayed, RunDelayed] w) =
           untraced one \<and>
         untraced (snd (stop_tasks one)) = untraced one))"
proof (intro conjI impI)
  assume d: "delayed w = []"
  let ?one = "run_events S decode [ShutdownSignal n, RunDelayed, RunDelayed] w"
  have s: "\<not> task_running ?one" "\<not> flush_states_task_running ?one"
    "\<not> logging_task_running ?one" "\<not> reactor_running ?one" "delayed ?one = []"
    by (simp_all only: signal_drain [OF d]) (simp_all add: d)
  have again: "untraced (run_events S decode [ShutdownSignal n', RunDelayed, RunDelayed] ?one) =
     untraced ?one"
    by (subst signal_drain [OF s(5)]) (rule untraced_stopped(1) [OF s(1-4)])
  have st: "untraced (snd (stop_tasks ?one)) = untraced ?one"
    by (simp only: stop_tasks_eq snd_conv) (rule untraced_stopped(2) [OF s(1-4)])
  show "let one = ?one in
         \<not> task_running one \<and> \<not> flush_states_task_running one \<and>
         \<not> logging_task_running one \<and> \<not> reactor_running one \<and> delayed one = [] \<and>
         untraced (run_events S decode [ShutdownSignal n', RunDelayed, RunDelayed] one) =
           untraced one \<and>
         untraced (run_events S decode
            [ShutdownSignal n, ShutdownSignal n', RunDelayed, RunDelayed, RunDelayed, RunDelayed] w) =
           untraced one \<and>
         untraced (snd (stop_tasks one)) = untraced one"
    unfolding Let_def
    by (intro conjI s again st two_signals_drain [OF d])
qed (simp_all add: stop_tasks_eq deferred_callback_eq)

theorem shutdown_idempotent_witness:
  "fst (stop_tasks started) = None \<and> fst (stop_tasks (snd (stop_tasks started))) = None \<and>
   fst (deferred_callback started) = None \<and>
   fst (deferred_callback (snd (deferred_callback started))) = None \<and>
   delayed started = [] \<and>
   \<not> reactor_running
       (run_events plain_strategy decode_ex [ShutdownSignal 15, RunDelayed, RunDelayed] started) \<and>
   untraced (run_events plain_strategy decode_ex [ShutdownSignal 2, RunDelayed, RunDelayed]
       (run_events plain_strategy decode_ex [ShutdownSignal 15, RunDelayed, RunDelayed] started)) =
     untraced (run_events plain_strategy decode_ex [ShutdownSignal 15, RunDelayed, RunDelayed] started) \<and>
   untraced (run_events plain_strategy decode_ex
       [ShutdownSignal 15, ShutdownSignal 2, RunDelayed, RunDelayed, RunDelayed, RunDelayed] started) =
     untraced (run_events plain_strategy decode_ex [ShutdownSignal 15, RunDelayed, RunDelayed] started) \<and>
   untraced (snd (stop_tasks
       (run_events plain_strategy decode_ex [ShutdownSignal 15, RunDelayed, RunDelayed] started))) =
     untraced (run_events plain_strategy decode_ex [ShutdownSignal 15, RunDelayed, RunDelayed] started)"
proof -
  have h: "delayed started = []" by (simp add: started_def init_def)
  note t = shutdown_idempotent [of started plain_strategy decode_ex 15 2, unfolded Let_def]
  note u = mp [OF conjunct2 [OF conjunct2 [OF conjunct2 [OF conjunct2 [OF t]]]] h]
  from t h u show ?thesis by (elim conjE, intro conjI) assumption+
qed

end
